theory Spec2Isabelle
  imports Complex_Main "HOL-Library.Log_Nat" "HOL-Library.Sublist" "HOL-Library.Multiset"
begin

section \<open>JavaScript values\<close>

text \<open>
  The three handlers of \<^verbatim>\<open>src/routes/gemini.js\<close> work on JSON data: the parsed reply of the
  generative model, the request body and the rows of the store. A JavaScript number is an
  IEEE 754 binary64 value. A finite one is carried by the rational it denotes (the two zeros
  are one value here: the handlers only add numbers, test them for truthiness and write them
  into JSON, and none of these tells \<^verbatim>\<open>-0\<close> from \<^verbatim>\<open>0\<close>).
\<close>

datatype jsnum = Finite rat | PosInf | NegInf | NaN

datatype jsval =
    Undefined
  | Null
  | Bool bool
  | Num jsnum
  | Str string
  | Arr "jsval list"
  | Obj "(string \<times> jsval) list"

text \<open>Truthiness, as \<^verbatim>\<open>!x\<close>, \<^verbatim>\<open>x && y\<close>, \<^verbatim>\<open>x || y\<close> and \<^verbatim>\<open>if (x)\<close> test it.\<close>

fun truthy :: "jsval \<Rightarrow> bool" where
  "truthy Undefined = False"
| "truthy Null = False"
| "truthy (Bool b) = b"
| "truthy (Num n) = (n \<noteq> NaN \<and> n \<noteq> Finite 0)"
| "truthy (Str s) = (s \<noteq> [])"
| "truthy (Arr xs) = True"
| "truthy (Obj kvs) = True"

text \<open>
  Reading a property. An object built by \<^verbatim>\<open>JSON.parse\<close> has its members as own properties,
  each key once. The keys the handlers read (\<^verbatim>\<open>fallback\<close>, \<^verbatim>\<open>cal\<close>, \<^verbatim>\<open>sugar\<close>, \<^verbatim>\<open>carbs\<close>,
  \<^verbatim>\<open>userId\<close>, \<^verbatim>\<open>foodName\<close>, \<^verbatim>\<open>message\<close>) are defined on no built-in prototype, so on a
  string, number, boolean or array they read \<^verbatim>\<open>undefined\<close>. Reading a property of
  \<^verbatim>\<open>null\<close> or \<^verbatim>\<open>undefined\<close> throws a TypeError.
\<close>

definition get :: "(string \<times> jsval) list \<Rightarrow> string \<Rightarrow> jsval" where
  "get kvs k = (case map_of kvs k of None \<Rightarrow> Undefined | Some v \<Rightarrow> v)"

fun own :: "jsval \<Rightarrow> string \<Rightarrow> jsval" where
  "own (Obj kvs) k = get kvs k"
| "own v k = Undefined"

datatype exn = TypeError

definition property :: "jsval \<Rightarrow> string \<Rightarrow> exn + jsval" where
  "property v k = (if v = Undefined \<or> v = Null then Inl TypeError else Inr (own v k))"

text \<open>
  \<^verbatim>\<open>String.prototype.toLowerCase\<close> and \<^verbatim>\<open>String.prototype.includes\<close>. A string is its
  UTF-8 bytes; lowering acts on the ASCII capitals and leaves every other byte alone. The
  handler only asks whether the lowered string contains an ASCII text without \<^verbatim>\<open>i\<close> and
  \<^verbatim>\<open>k\<close>, the two ASCII letters that a non-ASCII character can lower to.
\<close>

definition lower_char :: "char \<Rightarrow> char" where
  "lower_char c =
     (let n = (of_char c :: nat) in if 65 \<le> n \<and> n \<le> 90 then char_of (n + 32) else c)"

definition toLowerCase :: "string \<Rightarrow> string" where
  "toLowerCase s = map lower_char s"

fun str_includes :: "string \<Rightarrow> string \<Rightarrow> bool" where
  "str_includes [] t = (t = [])"
| "str_includes (c # s) t = (prefix t (c # s) \<or> str_includes s t)"

text \<open>
  What a handler does with its request: \<^verbatim>\<open>res.status(n).json(v)\<close> is \<open>Sent n v\<close>
  (\<^verbatim>\<open>res.json(v)\<close> alone has status 200), with \<open>v\<close> the value handed to \<^verbatim>\<open>res.json\<close>; a handler
  that returns without calling \<^verbatim>\<open>res\<close> is \<open>NoResponse\<close>.
\<close>

datatype outcome = Sent nat jsval | NoResponse

section \<open>Numbers\<close>

text \<open>
  Rounding a rational to the nearest binary64 value, ties to even: \<open>expo q\<close> is
  \<open>\<lfloor>log\<^sub>2 \<bar>q\<bar>\<rfloor>\<close>, the spacing of the binary64 values around \<open>q\<close> is
  \<open>2 powi (e - 52)\<close> with \<open>e\<close> not below \<open>-1022\<close> (the subnormal range), and a result of
  magnitude \<open>2 ^ 1024\<close> or more is an infinity.
\<close>

definition expo :: "rat \<Rightarrow> int" where
  "expo q = (if 1 \<le> \<bar>q\<bar> then bitlen \<lfloor>\<bar>q\<bar>\<rfloor> - 1 else - bitlen (\<lceil>1 / \<bar>q\<bar>\<rceil> - 1))"

definition round_half_even :: "rat \<Rightarrow> int" where
  "round_half_even x =
     (let f = \<lfloor>x\<rfloor>; r = x - of_int f
      in if r < 1 / 2 then f else if 1 / 2 < r then f + 1 else if even f then f else f + 1)"

definition round64 :: "rat \<Rightarrow> jsnum" where
  "round64 q =
     (if q = 0 then Finite 0
      else let e = max (expo q) (- 1022);
               ulp = 2 powi (e - 52);
               r = of_int (round_half_even (q / ulp)) * ulp
           in if 2 ^ 1024 \<le> \<bar>r\<bar> then (if 0 < q then PosInf else NegInf) else Finite r)"

text \<open>The operators \<^verbatim>\<open>+\<close> and \<^verbatim>\<open>*\<close> on two numbers, and \<^verbatim>\<open>Math.floor\<close>.\<close>

fun fadd :: "jsnum \<Rightarrow> jsnum \<Rightarrow> jsnum" where
  "fadd NaN y = NaN"
| "fadd x NaN = NaN"
| "fadd PosInf NegInf = NaN"
| "fadd NegInf PosInf = NaN"
| "fadd PosInf y = PosInf"
| "fadd x PosInf = PosInf"
| "fadd NegInf y = NegInf"
| "fadd x NegInf = NegInf"
| "fadd (Finite a) (Finite b) = round64 (a + b)"

definition sign_inf :: "bool \<Rightarrow> jsnum" where
  "sign_inf positive = (if positive then PosInf else NegInf)"

fun fmul :: "jsnum \<Rightarrow> jsnum \<Rightarrow> jsnum" where
  "fmul NaN y = NaN"
| "fmul x NaN = NaN"
| "fmul (Finite a) (Finite b) = round64 (a * b)"
| "fmul (Finite a) PosInf = (if a = 0 then NaN else sign_inf (0 < a))"
| "fmul (Finite a) NegInf = (if a = 0 then NaN else sign_inf (a < 0))"
| "fmul PosInf (Finite b) = (if b = 0 then NaN else sign_inf (0 < b))"
| "fmul NegInf (Finite b) = (if b = 0 then NaN else sign_inf (b < 0))"
| "fmul PosInf PosInf = PosInf"
| "fmul PosInf NegInf = NegInf"
| "fmul NegInf PosInf = NegInf"
| "fmul NegInf NegInf = PosInf"

fun math_floor :: "jsnum \<Rightarrow> jsnum" where
  "math_floor (Finite q) = Finite (of_int \<lfloor>q\<rfloor>)"
| "math_floor x = x"

text \<open>
  \<^verbatim>\<open>Math.random()\<close> gives a binary64 value \<open>r\<close> with \<open>0 \<le> r < 1\<close>; it is an input of the
  model.
\<close>

definition is_double :: "rat \<Rightarrow> bool" where
  "is_double q = (round64 q = Finite q)"

fun is_random :: "jsnum \<Rightarrow> bool" where
  "is_random (Finite q) = (0 \<le> q \<and> q < 1 \<and> is_double q)"
| "is_random x = False"

section \<open>POST /analyze\<close>

definition deadCelebs :: "string list" where
  "deadCelebs =
     [''Albert Einstein'', ''Cleopatra'', ''Julius Caesar'', ''Shakespeare'',
      ''Frida Kahlo'', ''Bruce Lee'', ''Leonardo da Vinci'', ''Napoleon Bonaparte'',
      ''Amelia Earhart'', ''Marie Curie'']"

text \<open>
  \<^verbatim>\<open>xs[n]\<close> for a number \<open>n\<close>: the element when \<open>n\<close> is a whole number from \<open>0\<close> up to the
  length, \<^verbatim>\<open>undefined\<close> otherwise.
\<close>

fun element :: "string list \<Rightarrow> jsnum \<Rightarrow> jsval" where
  "element xs (Finite q) =
     (if of_int \<lfloor>q\<rfloor> = q \<and> 0 \<le> q \<and> nat \<lfloor>q\<rfloor> < length xs then Str (xs ! nat \<lfloor>q\<rfloor>)
      else Undefined)"
| "element xs x = Undefined"

definition getRandomCeleb :: "jsnum \<Rightarrow> jsval" where
  "getRandomCeleb random =
     element deadCelebs (math_floor (fmul random (Finite (of_nat (length deadCelebs)))))"

text \<open>
  The inputs of the handler besides the random draw: whether \<^verbatim>\<open>req.file\<close> is there, and what
  the call of the model and \<^verbatim>\<open>JSON.parse(result.text)\<close> give. \<^verbatim>\<open>JSON.parse\<close> is the runtime's:
  it throws a SyntaxError or returns a value.
\<close>

datatype parsed = SyntaxError | Parsed jsval

datatype reply = ModelUnavailable | ResponseText parsed

text \<open>
  The test \<^verbatim>\<open>analysis.fallback && analysis.fallback.toLowerCase().includes("no food detected")\<close>.
  A truthy \<^verbatim>\<open>fallback\<close> that is no string has no method \<^verbatim>\<open>toLowerCase\<close>, and the call throws.
\<close>

definition sentinel :: string where
  "sentinel = ''no food detected''"

definition fallback_detected :: "jsval \<Rightarrow> exn + bool" where
  "fallback_detected analysis =
     (case property analysis ''fallback'' of
        Inl e \<Rightarrow> Inl e
      | Inr fb \<Rightarrow>
          if \<not> truthy fb then Inr False
          else (case fb of
                  Str s \<Rightarrow> Inr (str_includes (toLowerCase s) sentinel)
                | _ \<Rightarrow> Inl TypeError))"

definition error_body :: "string \<Rightarrow> jsval" where
  "error_body msg = Obj [(''error'', Str msg)]"

definition analyze :: "jsnum \<Rightarrow> bool \<Rightarrow> reply \<Rightarrow> outcome" where
  "analyze random has_file result =
     (let celebName = getRandomCeleb random in
      if \<not> has_file then Sent 400 (error_body ''No image uploaded'')
      else case result of
        ModelUnavailable \<Rightarrow> Sent 500 (error_body ''Failed to analyze image'')
      | ResponseText SyntaxError \<Rightarrow> Sent 500 (error_body ''Invalid response format from AI'')
      | ResponseText (Parsed analysis) \<Rightarrow>
          (case fallback_detected analysis of
             Inl e \<Rightarrow> Sent 500 (error_body ''Failed to analyze image'')
           | Inr True \<Rightarrow>
               Sent 200 (Obj [(''analysis'', Obj [(''fallback'', own analysis ''fallback'')])])
           | Inr False \<Rightarrow>
               Sent 200 (Obj [(''analysis'', analysis), (''coach'', celebName)])))"

text \<open>
  The nutrition fields of the response schema (its \<^verbatim>\<open>required\<close> list without \<^verbatim>\<open>fallback\<close>),
  and the body of a response.
\<close>

definition nutrition_fields :: "string list" where
  "nutrition_fields =
     [''coachAdvice'', ''food'', ''benefits'', ''calories'', ''carbs'', ''sugar'', ''drawbacks'',
      ''nutrients'']"

fun sent_body :: "outcome \<Rightarrow> jsval" where
  "sent_body (Sent n v) = v"
| "sent_body NoResponse = Undefined"


section \<open>POST /save\<close>

text \<open>
  The store client answers a call with \<^verbatim>\<open>{data, error}\<close>, a failure being a truthy
  \<^verbatim>\<open>error\<close>. The handler's request body is the object the JSON body parser leaves in
  \<^verbatim>\<open>req.body\<close>, given by its members (the application that mounts the router and its body
  parser is not among the sources). The store is a function from the argument of
  \<^verbatim>\<open>insert\<close> to its answer; the handler returns its response together with the arguments of
  the \<^verbatim>\<open>insert\<close> calls it made.
\<close>

record 'd answer =
  data :: 'd
  error :: jsval

definition save_catch :: "jsval \<Rightarrow> outcome" where
  "save_catch e =
     Sent 500 (Obj [(''error'', (let m = own e ''message''
                                in if truthy m then m else Str ''Internal server error'')),
                    (''details'', e)])"

definition save :: "(jsval \<Rightarrow> jsval answer) \<Rightarrow> (string \<times> jsval) list \<Rightarrow> outcome \<times> jsval list" where
  "save store_insert body =
     (let cal = get body ''cal''; sugar = get body ''sugar''; carbs = get body ''carbs'';
          userId = get body ''userId''; foodName = get body ''foodName''
      in if \<not> truthy cal \<or> \<not> truthy sugar \<or> \<not> truthy carbs
         then (Sent 400 (error_body ''sugar, carbs, cal is required''), [])
         else let rows = Arr [Obj [(''calories'', cal), (''carbs'', carbs), (''sugar'', sugar),
                                   (''user_id'', userId), (''food_name'', foodName)]];
                  r = store_insert rows
              in if truthy (error r) then (save_catch (error r), [rows])
                 else (Sent 200 (Obj [(''success'', Bool True),
                                      (''message'', Str ''saved successfully!''),
                                      (''data'', data r)]), [rows]))"

text \<open>
  The object the handler hands to \<^verbatim>\<open>insert\<close> for a body, and a store that accepts every
  insert (without \<^verbatim>\<open>.select()\<close> the store answers \<^verbatim>\<open>{data: null, error: null}\<close>).
\<close>

definition food_row :: "(string \<times> jsval) list \<Rightarrow> jsval" where
  "food_row body =
     Obj [(''calories'', get body ''cal''), (''carbs'', get body ''carbs''),
          (''sugar'', get body ''sugar''), (''user_id'', get body ''userId''),
          (''food_name'', get body ''foodName'')]"

definition accepting :: "jsval \<Rightarrow> jsval answer" where
  "accepting rows = \<lparr>data = Null, error = Null\<rparr>"


section \<open>GET /getFoodLogs\<close>

text \<open>
  A row of \<^verbatim>\<open>food_logs\<close>. Its three numeric columns hold a number or \<^verbatim>\<open>null\<close>, or are
  missing from the row object; the other columns are kept as they come.
\<close>

datatype cell = Missing | NullCell | Number jsnum

record FoodLogEntry =
  calories :: cell
  carbs :: cell
  sugar :: cell
  columns :: "(string \<times> jsval) list"

record DailyTotals =
  totalCalories :: jsnum
  totalCarbs :: jsnum
  totalSugar :: jsnum

text \<open>\<^verbatim>\<open>x || 0\<close> for a cell \<open>x\<close>.\<close>

fun or_zero :: "cell \<Rightarrow> jsnum" where
  "or_zero Missing = Finite 0"
| "or_zero NullCell = Finite 0"
| "or_zero (Number n) = (if truthy (Num n) then n else Finite 0)"

definition accumulate :: "DailyTotals \<Rightarrow> FoodLogEntry \<Rightarrow> DailyTotals" where
  "accumulate acc item =
     acc\<lparr>totalCalories := fadd (totalCalories acc) (or_zero (calories item)),
         totalCarbs := fadd (totalCarbs acc) (or_zero (carbs item)),
         totalSugar := fadd (totalSugar acc) (or_zero (sugar item))\<rparr>"

definition reduce :: "FoodLogEntry list \<Rightarrow> DailyTotals" where
  "reduce entries =
     foldl accumulate
       \<lparr>totalCalories = Finite 0, totalCarbs = Finite 0, totalSugar = Finite 0\<rparr> entries"

fun cell_json :: "string \<Rightarrow> cell \<Rightarrow> (string \<times> jsval) list" where
  "cell_json k Missing = []"
| "cell_json k NullCell = [(k, Null)]"
| "cell_json k (Number n) = [(k, Num n)]"

definition entry_json :: "FoodLogEntry \<Rightarrow> jsval" where
  "entry_json item =
     Obj (cell_json ''calories'' (calories item) @ cell_json ''carbs'' (carbs item)
          @ cell_json ''sugar'' (sugar item) @ columns item)"

definition totals_json :: "DailyTotals \<Rightarrow> jsval" where
  "totals_json t =
     Obj [(''totalCalories'', Num (totalCalories t)), (''totalCarbs'', Num (totalCarbs t)),
          (''totalSugar'', Num (totalSugar t))]"

definition getFoodLogs :: "jsval \<Rightarrow> FoodLogEntry list answer \<Rightarrow> outcome" where
  "getFoodLogs userId r =
     (if \<not> truthy userId then Sent 400 (error_body ''no userId received!'')
      else if truthy (error r) then NoResponse
      else Sent 200 (Obj [(''data'', Arr (map entry_json (data r))),
                          (''totals'', totals_json (reduce (data r)))]))"

text \<open>
  The totals as the specification words them: each total is the sum, in the order of the
  rows and with JavaScript's \<^verbatim>\<open>+\<close>, of the column's values, a missing or null cell
  counting as \<open>0\<close>.
\<close>

fun cell_value :: "cell \<Rightarrow> jsnum" where
  "cell_value Missing = Finite 0"
| "cell_value NullCell = Finite 0"
| "cell_value (Number n) = n"

definition js_sum :: "jsnum list \<Rightarrow> jsnum" where
  "js_sum ns = foldl fadd (Finite 0) ns"

text \<open>
  A cell that holds a whole number, not negative, and the rational it holds. \<open>log_row c b s\<close>
  is the row that the JSON text \<^verbatim>\<open>{"calories": c, "carbs": b, "sugar": s}\<close> parses to: each
  decimal literal becomes the nearest binary64 value.
\<close>

fun whole :: "cell \<Rightarrow> bool" where
  "whole (Number (Finite q)) = (0 \<le> q \<and> of_int \<lfloor>q\<rfloor> = q)"
| "whole c = False"

fun amount :: "cell \<Rightarrow> rat" where
  "amount (Number (Finite q)) = q"
| "amount c = 0"

definition log_row :: "rat \<Rightarrow> rat \<Rightarrow> rat \<Rightarrow> FoodLogEntry" where
  "log_row c b s =
     \<lparr>calories = Number (round64 c), carbs = Number (round64 b), sugar = Number (round64 s),
      columns = []\<rparr>"

section \<open>Rounding to binary64\<close>

text \<open>
  \<open>expo q\<close> is the exponent of \<open>q\<close>: \<open>2 powi expo q \<le> \<bar>q\<bar> < 2 powi (expo q + 1)\<close>.
\<close>

lemma expo_ge1:
  assumes "1 \<le> q"
  shows "2 powi (bitlen \<lfloor>q\<rfloor> - 1) \<le> q \<and> q < 2 powi (bitlen \<lfloor>q::rat\<rfloor> - 1 + 1)"
proof -
  let ?n = "\<lfloor>q\<rfloor>"
  have n: "0 < ?n" using assms by simp
  from bitlen_bounds[OF n] have lo: "2 ^ nat (bitlen ?n - 1) \<le> ?n" and hi: "?n < 2 ^ nat (bitlen ?n)"
    by auto
  have b1: "1 \<le> bitlen ?n" using n by (auto simp: bitlen_alt_def)
  have "(2::rat) powi (bitlen ?n - 1) = 2 ^ nat (bitlen ?n - 1)"
    using b1 by (simp add: power_int_def)
  also have "\<dots> = of_int (2 ^ nat (bitlen ?n - 1))" by simp
  also have "\<dots> \<le> of_int ?n" using lo by (simp only: of_int_le_iff)
  also have "\<dots> \<le> q" by simp
  finally have A: "2 powi (bitlen ?n - 1) \<le> q" .
  have "?n + 1 \<le> 2 ^ nat (bitlen ?n)" using hi by simp
  then have "(of_int (?n + 1) :: rat) \<le> of_int (2 ^ nat (bitlen ?n))" by (simp only: of_int_le_iff)
  moreover have "q < of_int (?n + 1)" by linarith
  ultimately have "q < of_int (2 ^ nat (bitlen ?n))" by linarith
  also have "\<dots> = 2 powi (bitlen ?n - 1 + 1)" using b1 by (simp add: power_int_def)
  finally show ?thesis using A by simp
qed

lemma expo_lt1:
  assumes "0 < q" "q < 1"
  shows "2 powi (- bitlen (\<lceil>1 / q\<rceil> - 1)) \<le> q \<and> q < 2 powi (- bitlen (\<lceil>1 / q::rat\<rceil> - 1) + 1)"
proof -
  let ?c = "\<lceil>1 / q\<rceil> - 1"
  let ?k = "bitlen ?c"
  have inv: "1 < 1 / q" using assms by simp
  then have "1 < \<lceil>1 / q\<rceil>" by linarith
  then have c: "0 < ?c" by simp
  from bitlen_bounds[OF c] have lo: "2 ^ nat (?k - 1) \<le> ?c" and hi: "?c < 2 ^ nat ?k"
    by auto
  have k1: "1 \<le> ?k" using c by (auto simp: bitlen_alt_def)
  have "1 / q \<le> of_int (?c + 1)" by simp
  also have "\<dots> \<le> of_int (2 ^ nat ?k)"
  proof -
    have "?c + 1 \<le> 2 ^ nat ?k" using hi by simp
    then show ?thesis by (simp only: of_int_le_iff)
  qed
  also have "\<dots> = 2 ^ nat ?k" by simp
  finally have "1 / q \<le> 2 ^ nat ?k" .
  then have "1 \<le> 2 ^ nat ?k * q" using assms by (simp add: field_simps)
  then have "1 / 2 ^ nat ?k \<le> q" by (simp add: field_simps)
  moreover have "(2::rat) powi (- ?k) = 1 / 2 ^ nat ?k"
    using k1 by (simp add: power_int_def field_simps)
  ultimately have A: "2 powi (- ?k) \<le> q" by simp
  have "(2::rat) ^ nat (?k - 1) = of_int (2 ^ nat (?k - 1))" by simp
  also have "\<dots> \<le> of_int ?c" using lo by (simp only: of_int_le_iff)
  also have "\<dots> < 1 / q" by linarith
  finally have "2 ^ nat (?k - 1) < 1 / q" .
  then have "2 ^ nat (?k - 1) * q < 1" using assms by (simp add: field_simps)
  then have "q < 1 / 2 ^ nat (?k - 1)" by (simp add: field_simps)
  moreover have "(2::rat) powi (- ?k + 1) = 1 / 2 ^ nat (?k - 1)"
  proof -
    have "- ?k + 1 = - (?k - 1)" by simp
    then have "(2::rat) powi (- ?k + 1) = 2 powi (- (?k - 1))" by simp
    also have "\<dots> = 1 / 2 powi (?k - 1)" by (rule power_int_minus_divide)
    also have "\<dots> = 1 / 2 ^ nat (?k - 1)" using k1 by (simp add: power_int_def)
    finally show ?thesis .
  qed
  ultimately show ?thesis using A by simp
qed

lemma expo_bounds:
  assumes "q \<noteq> 0"
  shows "2 powi (expo q) \<le> \<bar>q\<bar> \<and> \<bar>q\<bar> < 2 powi (expo q + 1)"
proof (cases "1 \<le> \<bar>q\<bar>")
  case True
  then show ?thesis using expo_ge1[of "\<bar>q\<bar>"] by (simp add: expo_def)
next
  case False
  then have "0 < \<bar>q\<bar>" "\<bar>q\<bar> < 1" using assms by auto
  from expo_lt1[OF this] False show ?thesis by (simp add: expo_def)
qed

lemma expo_unique:
  assumes "2 powi k \<le> \<bar>q\<bar>" "\<bar>q\<bar> < 2 powi (k + 1)"
  shows "expo q = k"
proof -
  have "0 < (2::rat) powi k" by simp
  with assms(1) have "0 < \<bar>q\<bar>" by linarith
  then have q0: "q \<noteq> 0" by simp
  note b = expo_bounds[OF q0]
  have "\<not> expo q < k"
  proof
    assume "expo q < k"
    then have "expo q + 1 \<le> k" by simp
    then have "(2::rat) powi (expo q + 1) \<le> 2 powi k" by (intro power_int_increasing) auto
    then show False using b assms by linarith
  qed
  moreover have "\<not> k < expo q"
  proof
    assume "k < expo q"
    then have "k + 1 \<le> expo q" by simp
    then have "(2::rat) powi (k + 1) \<le> 2 powi (expo q)" by (intro power_int_increasing) auto
    then show False using b assms by linarith
  qed
  ultimately show ?thesis by simp
qed

lemma expo_less:
  assumes "q \<noteq> 0" "\<bar>q\<bar> < 2 powi k"
  shows "expo q < k"
proof (rule ccontr)
  assume "\<not> expo q < k"
  then have "k \<le> expo q" by simp
  then have "(2::rat) powi k \<le> 2 powi (expo q)" by (intro power_int_increasing) auto
  with expo_bounds[OF assms(1)] assms(2) show False by linarith
qed

lemma expo_ge:
  assumes "2 powi k \<le> \<bar>q\<bar>"
  shows "k \<le> expo q"
proof (rule ccontr)
  assume "\<not> k \<le> expo q"
  then have "expo q + 1 \<le> k" by simp
  then have le: "(2::rat) powi (expo q + 1) \<le> 2 powi k" by (intro power_int_increasing) auto
  have "0 < (2::rat) powi k" by simp
  with assms have "0 < \<bar>q\<bar>" by linarith
  then have "q \<noteq> 0" by simp
  from expo_bounds[OF this] le assms show False by linarith
qed

lemma round_half_even_of_int: "round_half_even (of_int n) = n"
  by (simp add: round_half_even_def)

lemma round_half_even_le:
  assumes "x \<le> of_int N"
  shows "round_half_even x \<le> N"
proof -
  have f: "\<lfloor>x\<rfloor> \<le> N" using assms by (simp add: floor_le_iff) 
  show ?thesis
  proof (cases "\<lfloor>x\<rfloor> = N")
    case True
    have "of_int \<lfloor>x\<rfloor> \<le> x" by simp
    with True assms have "x - of_int \<lfloor>x\<rfloor> = 0" by simp
    then show ?thesis using True by (simp add: round_half_even_def Let_def)
  next
    case False
    with f have "\<lfloor>x\<rfloor> + 1 \<le> N" by simp
    then show ?thesis by (simp add: round_half_even_def Let_def)
  qed
qed

lemma round_half_even_nonneg:
  assumes "0 \<le> x"
  shows "0 \<le> round_half_even x"
proof -
  have "0 \<le> \<lfloor>x\<rfloor>" using assms by simp
  then show ?thesis by (simp add: round_half_even_def Let_def)
qed

lemma round_half_even_below_half:
  assumes "x < of_int N - 1 / 2"
  shows "round_half_even x \<le> N - 1"
proof -
  have "x < of_int N" using assms by linarith
  then have f: "\<lfloor>x\<rfloor> \<le> N - 1" by (simp add: floor_less_iff)
  show ?thesis
  proof (cases "\<lfloor>x\<rfloor> = N - 1")
    case True
    then have "x - of_int \<lfloor>x\<rfloor> < 1 / 2" using assms by simp
    then show ?thesis using True by (simp add: round_half_even_def Let_def)
  next
    case False
    with f have "\<lfloor>x\<rfloor> + 1 \<le> N - 1" by simp
    then show ?thesis by (simp add: round_half_even_def Let_def)
  qed
qed

lemma round64_of_int:
  assumes "0 \<le> n" "n \<le> 2 ^ 53"
  shows "round64 (of_int n) = Finite (of_int n)"
proof (cases "n = 0")
  case True
  then show ?thesis by (simp add: round64_def)
next
  case False
  let ?q = "of_int n :: rat"
  let ?e = "expo ?q"
  have q0: "?q \<noteq> 0" using False by simp
  have n1: "1 \<le> n" using False assms by simp
  have absq: "\<bar>?q\<bar> = ?q" using assms by simp
  have "(2::rat) powi 0 \<le> \<bar>?q\<bar>" using n1 by simp
  then have e0: "0 \<le> ?e" by (rule expo_ge)
  have qle: "?q \<le> 2 ^ 53"
  proof -
    have "?q \<le> of_int (2 ^ 53)" using assms(2) by (simp only: of_int_le_iff)
    then show ?thesis by simp
  qed
  have "\<bar>?q\<bar> < 2 powi 54" using qle absq by simp
  then have "?e < 54" using q0 by (rule expo_less[rotated])
  then have e53: "?e \<le> 53" by simp
  have m: "max ?e (- 1022) = ?e" using e0 by simp
  have int_m: "\<exists>k. ?q / 2 powi (?e - 52) = of_int k"
  proof (cases "?e \<le> 52")
    case True
    have "?q / 2 powi (?e - 52) = ?q * 2 powi (52 - ?e)"
      using power_int_minus_divide[of "2::rat" "?e - 52"] by (simp add: field_simps)
    also have "\<dots> = ?q * 2 ^ nat (52 - ?e)" using True by (simp add: power_int_def)
    also have "\<dots> = of_int (n * 2 ^ nat (52 - ?e))" by simp
    finally show ?thesis by blast
  next
    case False
    with e53 have e: "?e = 53" by simp
    from expo_bounds[OF q0] have "2 powi 53 \<le> \<bar>?q\<bar>" by (simp add: e)
    then have q53: "?q = 2 ^ 53" using qle absq by simp
    have "?e - 52 = 1" using e by simp
    then have "?q / 2 powi (?e - 52) = ?q / 2" by simp
    also have "\<dots> = 2 ^ 53 / 2" by (simp only: q53)
    also have "\<dots> = of_int (2 ^ 52)" by simp
    finally show ?thesis by blast
  qed
  then obtain k where k: "?q / 2 powi (?e - 52) = of_int k" ..
  have ulp: "(2::rat) powi (?e - 52) \<noteq> 0" by simp
  have undo: "of_int k * 2 powi (?e - 52) = ?q"
    using k ulp by (simp add: field_simps)
  have small: "\<not> (2 ^ 1024 \<le> \<bar>?q\<bar>)"
  proof -
    have "(2::rat) ^ 53 < 2 ^ 1024" by (rule power_strict_increasing) simp_all
    with qle absq show ?thesis by linarith
  qed
  show ?thesis
    using q0 small
    by (simp only: round64_def m Let_def k round_half_even_of_int undo if_False)
qed

lemma powi_53: "(2::rat) powi (e + 1) / 2 powi (e - 52) = 2 ^ 53"
proof -
  have "e + 1 = (e - 52) + 53" by simp
  then have "(2::rat) powi (e + 1) = 2 powi ((e - 52) + 53)" by (simp only:)
  also have "\<dots> = 2 powi (e - 52) * 2 powi 53" by (rule power_int_add) simp
  finally show ?thesis by simp
qed

lemma double_below_one:
  assumes "is_double q" "0 < q" "q < 1"
  shows "q \<le> 1 - 1 / 2 ^ 53"
proof -
  let ?e = "max (expo q) (- 1022)"
  let ?ulp = "(2::rat) powi (?e - 52)"
  let ?n = "round_half_even (q / ?ulp)"
  have q0: "q \<noteq> 0" using assms by simp
  have ulp: "0 < ?ulp" by simp
  have "\<bar>q\<bar> < 2 powi 0" using assms by simp
  with q0 have "expo q < 0" by (rule expo_less)
  then have e_le: "?e \<le> - 1" by simp
  have r: "of_int ?n * ?ulp = q"
    using assms(1) q0 unfolding is_double_def round64_def Let_def
    by (simp split: if_splits)
  then have n: "q / ?ulp = of_int ?n" using ulp by (simp add: field_simps)
  have "q < 2 powi (expo q + 1)" using expo_bounds[OF q0] assms by simp
  also have "\<dots> \<le> 2 powi (?e + 1)" by (intro power_int_increasing) auto
  finally have "q / ?ulp < 2 powi (?e + 1) / ?ulp" using ulp by (simp add: divide_strict_right_mono)
  then have "q / ?ulp < 2 ^ 53" by (simp only: powi_53)
  with n[symmetric] have "(of_int ?n :: rat) < 2 ^ 53" by (rule ord_eq_less_trans)
  then have "(of_int ?n :: rat) < of_int (2 ^ 53)" by simp
  then have "?n < 2 ^ 53" by (simp only: of_int_less_iff)
  then have "?n \<le> 2 ^ 53 - 1" by simp
  then have "(of_int ?n :: rat) \<le> of_int (2 ^ 53 - 1)" by (simp only: of_int_le_iff)
  then have nle: "(of_int ?n :: rat) \<le> 2 ^ 53 - 1" by simp
  have "?ulp \<le> 2 powi (- 53)" using e_le by (intro power_int_increasing) auto
  then have ule: "?ulp \<le> 1 / 2 ^ 53" by (simp add: power_int_minus_divide)
  have "q = of_int ?n * ?ulp" by (rule r[symmetric])
  also have "\<dots> \<le> (2 ^ 53 - 1) * ?ulp" using nle ulp by (simp add: mult_right_mono)
  also have "\<dots> \<le> (2 ^ 53 - 1) * (1 / 2 ^ 53)" using ule by (intro mult_left_mono) simp_all
  also have "\<dots> = 1 - 1 / 2 ^ 53" by simp
  finally show ?thesis .
qed

lemma round64_below_ten:
  assumes "0 < x" "x \<le> 10 - 10 / 2 ^ 53"
  shows "\<exists>p. round64 x = Finite p \<and> 0 \<le> p \<and> p < 10"
proof -
  let ?e = "max (expo x) (- 1022)"
  let ?ulp = "(2::rat) powi (?e - 52)"
  let ?n = "round_half_even (x / ?ulp)"
  let ?p = "of_int ?n * ?ulp"
  have x0: "x \<noteq> 0" using assms by simp
  have ulp: "0 < ?ulp" by simp
  have "\<bar>x\<bar> < 2 powi 4" using assms by simp
  with x0 have "expo x < 4" by (rule expo_less)
  then have e_le: "?e \<le> 3" by simp
  have "0 \<le> x / ?ulp" using assms ulp by simp
  then have "0 \<le> ?n" by (rule round_half_even_nonneg)
  then have p0: "0 \<le> ?p" using ulp by simp
  have p10: "?p < 10"
  proof (cases "?e = 3")
    case True
    have u: "?ulp = 1 / 2 ^ 49"
      using power_int_minus_divide[of "2::rat" 49] by (simp add: True)
    have "x / ?ulp = x * 2 ^ 49" by (simp add: u)
    also have "\<dots> \<le> (10 - 10 / 2 ^ 53) * 2 ^ 49" using assms by simp
    also have "\<dots> < of_int (10 * 2 ^ 49) - 1 / 2" by simp
    finally have "?n \<le> 10 * 2 ^ 49 - 1" by (rule round_half_even_below_half)
    then have "(of_int ?n :: rat) \<le> of_int (10 * 2 ^ 49 - 1)" by (simp only: of_int_le_iff)
    then have "?p \<le> of_int (10 * 2 ^ 49 - 1) * ?ulp" using ulp by (simp only: mult_right_mono less_imp_le)
    also have "\<dots> < 10" by (simp add: u)
    finally show ?thesis .
  next
    case False
    with e_le have e2: "?e \<le> 2" by simp
    have "x < 2 powi (expo x + 1)" using expo_bounds[OF x0] assms by simp
    also have "\<dots> \<le> 2 powi (?e + 1)" by (intro power_int_increasing) auto
    finally have "x / ?ulp < 2 powi (?e + 1) / ?ulp" using ulp by (simp add: divide_strict_right_mono)
    then have "x / ?ulp \<le> of_int (2 ^ 53)" by (simp add: powi_53)
    then have "?n \<le> 2 ^ 53" by (rule round_half_even_le)
    then have "(of_int ?n :: rat) \<le> of_int (2 ^ 53)" by (simp only: of_int_le_iff)
    then have "?p \<le> of_int (2 ^ 53) * ?ulp" using ulp by (simp only: mult_right_mono less_imp_le)
    also have "\<dots> = 2 ^ 53 * ?ulp" by simp
    also have "\<dots> = 2 powi (?e + 1) / ?ulp * ?ulp" by (simp only: powi_53)
    also have "\<dots> = 2 powi (?e + 1)" by simp
    also have "\<dots> \<le> 2 powi 3" using e2 by (intro power_int_increasing) auto
    also have "\<dots> < 10" by simp
    finally show ?thesis .
  qed
  have "\<bar>?p\<bar> < 10" using p0 p10 by simp
  moreover have "(10::rat) < 2 ^ 1024"
  proof -
    have "(10::rat) < 2 ^ 4" by simp
    also have "\<dots> < 2 ^ 1024" by (rule power_strict_increasing) simp_all
    finally show ?thesis .
  qed
  ultimately have "\<not> 2 ^ 1024 \<le> \<bar>?p\<bar>" by linarith
  then have "round64 x = Finite ?p" using x0 by (simp add: round64_def Let_def)
  with p0 p10 show ?thesis by blast
qed

lemma floor_rat_numeral: "\<lfloor>numeral a / numeral b :: rat\<rfloor> = numeral a div numeral b"
  using floor_divide_of_int_eq[of "numeral a" "numeral b", where ?'a = rat] by simp

lemma round64_eval:
  assumes "2 powi k \<le> \<bar>q\<bar>" and "\<bar>q\<bar> < 2 powi (k + 1)" and "- 1022 \<le> k"
    and "of_int (round_half_even (q / 2 powi (k - 52))) * 2 powi (k - 52) = r"
    and "\<bar>r\<bar> < 2 ^ 1024"
  shows "round64 q = Finite r"
proof -
  have e: "expo q = k" using assms(1,2) by (rule expo_unique)
  have "0 < (2::rat) powi k" by simp
  with assms(1) have "0 < \<bar>q\<bar>" by linarith
  then have "q \<noteq> 0" by simp
  moreover have "max k (- 1022) = k" using assms(3) by simp
  ultimately show ?thesis using assms(4,5) by (simp add: round64_def e Let_def)
qed

lemma round64_numeral:
  "numeral w \<le> (2 ^ 53 :: int) \<Longrightarrow> round64 (numeral w) = Finite (numeral w)"
  using round64_of_int[of "numeral w"] by simp

text \<open>The literals \<^verbatim>\<open>0.1\<close>, \<^verbatim>\<open>0.2\<close> and \<^verbatim>\<open>0.3\<close>, and their sum in two orders.\<close>

lemma round64_tenth: "round64 (1 / 10) = Finite (3602879701896397 / 36028797018963968)"
  by (rule round64_eval[where k = "- 4"]) (simp_all add: round_half_even_def floor_rat_numeral)

lemma round64_fifth: "round64 (2 / 10) = Finite (3602879701896397 / 18014398509481984)"
  by (rule round64_eval[where k = "- 3"]) (simp_all add: round_half_even_def floor_rat_numeral)

lemma round64_three_tenths: "round64 (3 / 10) = Finite (5404319552844595 / 18014398509481984)"
  by (rule round64_eval[where k = "- 2"]) (simp_all add: round_half_even_def floor_rat_numeral)

lemma sum_ascending:
  "fadd (fadd (fadd (Finite 0) (round64 (1 / 10))) (round64 (2 / 10))) (round64 (3 / 10))
     = Finite (1351079888211149 / 2251799813685248)"
proof -
  have 1: "round64 (3602879701896397 / 36028797018963968)
             = Finite (3602879701896397 / 36028797018963968)"
    by (rule round64_eval[where k = "- 4"]) (simp_all add: round_half_even_def floor_rat_numeral)
  have 2: "round64 (3602879701896397 / 36028797018963968 + 3602879701896397 / 18014398509481984)
             = Finite (1351079888211149 / 4503599627370496)"
    by (rule round64_eval[where k = "- 2"]) (simp_all add: round_half_even_def floor_rat_numeral)
  have 3: "round64 (1351079888211149 / 4503599627370496 + 5404319552844595 / 18014398509481984)
             = Finite (1351079888211149 / 2251799813685248)"
    by (rule round64_eval[where k = "- 1"]) (simp_all add: round_half_even_def floor_rat_numeral)
  show ?thesis
    by (simp only: round64_tenth round64_fifth round64_three_tenths fadd.simps add_0 1 2 3)
qed

lemma sum_descending:
  "fadd (fadd (fadd (Finite 0) (round64 (3 / 10))) (round64 (2 / 10))) (round64 (1 / 10))
     = Finite (5404319552844595 / 9007199254740992)"
proof -
  have 1: "round64 (5404319552844595 / 18014398509481984)
             = Finite (5404319552844595 / 18014398509481984)"
    by (rule round64_eval[where k = "- 2"]) (simp_all add: round_half_even_def floor_rat_numeral)
  have 2: "round64 (5404319552844595 / 18014398509481984 + 3602879701896397 / 18014398509481984)
             = Finite (1 / 2)"
    by (rule round64_eval[where k = "- 1"]) (simp_all add: round_half_even_def floor_rat_numeral)
  have 3: "round64 (1 / 2 + 3602879701896397 / 36028797018963968)
             = Finite (5404319552844595 / 9007199254740992)"
    by (rule round64_eval[where k = "- 1"]) (simp_all add: round_half_even_def floor_rat_numeral)
  show ?thesis
    by (simp only: round64_tenth round64_fifth round64_three_tenths fadd.simps add_0 1 2 3)
qed

section \<open>The totals fold\<close>

lemma foldl_accumulate:
  "foldl accumulate t entries =
     \<lparr>totalCalories = foldl fadd (totalCalories t) (map (or_zero \<circ> calories) entries),
      totalCarbs = foldl fadd (totalCarbs t) (map (or_zero \<circ> carbs) entries),
      totalSugar = foldl fadd (totalSugar t) (map (or_zero \<circ> sugar) entries)\<rparr>"
  by (induction entries arbitrary: t) (simp_all add: accumulate_def)

lemma or_zero_cell_value: "c \<noteq> Number NaN \<Longrightarrow> or_zero c = cell_value c"
  by (cases c) auto

lemma whole_amount:
  assumes "whole c"
  shows "0 \<le> amount c" and "of_int \<lfloor>amount c\<rfloor> = amount c" and "or_zero c = Finite (amount c)"
  using assms by (cases c rule: whole.cases; simp)+

lemma sum_amount_nonneg: "\<forall>c \<in> set cs. whole c \<Longrightarrow> 0 \<le> sum_list (map amount cs)"
  by (induction cs) (auto dest: whole_amount(1))

lemma foldl_fadd_exact:
  assumes "\<forall>c \<in> set cs. whole c" and "0 \<le> a" and "of_int \<lfloor>a\<rfloor> = a"
    and "a + sum_list (map amount cs) \<le> 2 ^ 53"
  shows "foldl fadd (Finite a) (map or_zero cs) = Finite (a + sum_list (map amount cs))"
  using assms
proof (induction cs arbitrary: a)
  case Nil
  then show ?case by simp
next
  case (Cons c cs)
  from Cons.prems(1) have w: "whole c" and ws: "\<forall>c \<in> set cs. whole c" by simp_all
  note wa = whole_amount[OF w]
  have rest: "0 \<le> sum_list (map amount cs)" using ws by (rule sum_amount_nonneg)
  let ?b = "a + amount c"
  let ?n = "\<lfloor>a\<rfloor> + \<lfloor>amount c\<rfloor>"
  have b_int: "of_int ?n = ?b" by (simp only: of_int_add Cons.prems(3) wa(2))
  have b0: "0 \<le> ?b" using Cons.prems(2) wa(1) by simp
  have b53: "?b \<le> 2 ^ 53" using Cons.prems(4) rest by simp
  have n0: "0 \<le> ?n" using b0 b_int by (metis of_int_0_le_iff)
  have "(of_int ?n :: rat) \<le> of_int (2 ^ 53)" using b53 b_int by simp
  then have n53: "?n \<le> 2 ^ 53" by (simp only: of_int_le_iff)
  have "fadd (Finite a) (or_zero c) = round64 (of_int ?n)" by (simp only: wa(3) fadd.simps b_int)
  also have "\<dots> = Finite (of_int ?n)" using n0 n53 by (rule round64_of_int)
  finally have step: "fadd (Finite a) (or_zero c) = Finite ?b" using b_int by simp
  have fl: "of_int \<lfloor>?b\<rfloor> = ?b" using b_int by (metis floor_of_int)
  have "foldl fadd (Finite ?b) (map or_zero cs) = Finite (?b + sum_list (map amount cs))"
    using ws b0 fl Cons.prems(4) by (intro Cons.IH) (simp_all add: add.assoc)
  then show ?case using step by (simp add: add.assoc)
qed

lemma column_exact:
  assumes "\<forall>e \<in> set entries. whole (f e)" and "(\<Sum>e\<leftarrow>entries. amount (f e)) \<le> 2 ^ 53"
  shows "foldl fadd (Finite 0) (map (or_zero \<circ> f) entries) = Finite (\<Sum>e\<leftarrow>entries. amount (f e))"
proof -
  have "foldl fadd (Finite 0) (map or_zero (map f entries))
          = Finite (0 + sum_list (map amount (map f entries)))"
    using assms by (intro foldl_fadd_exact) (simp_all add: comp_def)
  then show ?thesis by (simp add: comp_def)
qed

lemma sum_list_perm:
  fixes g :: "'a \<Rightarrow> rat"
  assumes "mset xs = mset ys"
  shows "sum_list (map g xs) = sum_list (map g ys)"
proof -
  have "sum_list (map g xs) = sum_mset (mset (map g xs))" by (simp only: sum_mset_sum_list)
  also have "\<dots> = sum_mset (mset (map g ys))" using assms by (simp only: mset_map)
  also have "\<dots> = sum_list (map g ys)" by (simp only: sum_mset_sum_list)
  finally show ?thesis .
qed

section \<open>Evaluating the handlers\<close>

lemma lower_sentinel: "toLowerCase ''No Food Detected'' = ''no food detected''"
  by code_simp

lemma getRandomCeleb_zero: "getRandomCeleb (Finite 0) = Str ''Albert Einstein''"
  by (simp add: getRandomCeleb_def deadCelebs_def round64_def)

section \<open>The claims\<close>

subsection \<open>POST /analyze\<close>

text \<open>
  Claim C1. When the parsed reply has a non-empty string \<^verbatim>\<open>fallback\<close> whose lowercase form
  contains \<^verbatim>\<open>no food detected\<close>, the handler answers 200 with an \<^verbatim>\<open>analysis\<close> that holds the
  fallback message and nothing else: whatever nutrition fields the reply carried, none is in
  the response.
\<close>

theorem analyze_fallback_only:
  assumes "property analysis ''fallback'' = Inr (Str s)"
    and "s \<noteq> []"
    and "str_includes (toLowerCase s) sentinel"
  shows "analyze random True (ResponseText (Parsed analysis)) =
           Sent 200 (Obj [(''analysis'', Obj [(''fallback'', Str s)])])
         \<and> list_all (\<lambda>k. own (own (sent_body (analyze random True (ResponseText (Parsed analysis))))
                                  ''analysis'') k = Undefined) nutrition_fields"
proof -
  from assms(1) have fb: "own analysis ''fallback'' = Str s"
    by (auto simp: property_def split: if_splits)
  have "fallback_detected analysis = Inr True"
    using assms by (simp add: fallback_detected_def)
  then have eq: "analyze random True (ResponseText (Parsed analysis)) =
           Sent 200 (Obj [(''analysis'', Obj [(''fallback'', Str s)])])"
    by (simp add: analyze_def fb)
  show ?thesis unfolding eq by (simp add: nutrition_fields_def get_def)
qed

theorem analyze_fallback_only_witness:
  "analyze (Finite 0) True
     (ResponseText (Parsed (Obj [(''fallback'', Str ''No Food Detected''),
                                 (''calories'', Num (Finite 120)), (''food'', Str ''rock'')]))) =
   Sent 200 (Obj [(''analysis'', Obj [(''fallback'', Str ''No Food Detected'')])])"
proof -
  let ?a = "Obj [(''fallback'', Str ''No Food Detected''), (''calories'', Num (Finite 120)),
                 (''food'', Str ''rock'')]"
  have 1: "property ?a ''fallback'' = Inr (Str ''No Food Detected'')"
    by (simp add: property_def get_def)
  have 2: "''No Food Detected'' \<noteq> []" by simp
  have 3: "str_includes (toLowerCase ''No Food Detected'') sentinel"
    by (simp add: lower_sentinel sentinel_def)
  from analyze_fallback_only[OF 1 2 3, of "Finite 0"] show ?thesis by simp
qed

text \<open>
  Claim C2, as the specification states it, asks for the InvalidFormat error when the parsed
  reply misses a required field and carries no sentinel. The handler never looks at the
  required fields: the reply \<^verbatim>\<open>{"food": "apple"}\<close> is answered with 200 and that partial
  analysis.
\<close>

theorem analyze_partial_reply_counterexample:
  "analyze (Finite 0) True (ResponseText (Parsed (Obj [(''food'', Str ''apple'')]))) =
     Sent 200 (Obj [(''analysis'', Obj [(''food'', Str ''apple'')]),
                    (''coach'', Str ''Albert Einstein'')])"
  by (simp add: analyze_def fallback_detected_def property_def get_def getRandomCeleb_zero)

text \<open>
  Claim C2, amended. Every reply that parses to a value other than \<^verbatim>\<open>null\<close> and carries no
  sentinel (its \<^verbatim>\<open>fallback\<close> is missing or falsy, or a string without the sentinel) is answered
  with 200, the parsed value unchanged as \<^verbatim>\<open>analysis\<close> and the persona as \<^verbatim>\<open>coach\<close>, whether
  or not required fields are missing: no field is checked and none is filled in.
\<close>

theorem analyze_passes_reply_through:
  assumes "analysis \<noteq> Null" and "analysis \<noteq> Undefined"
    and "\<not> truthy (own analysis ''fallback'')
         \<or> (\<exists>s. own analysis ''fallback'' = Str s \<and> \<not> str_includes (toLowerCase s) sentinel)"
  shows "analyze random True (ResponseText (Parsed analysis)) =
           Sent 200 (Obj [(''analysis'', analysis), (''coach'', getRandomCeleb random)])"
proof -
  have "fallback_detected analysis = Inr False"
    using assms by (auto simp: fallback_detected_def property_def)
  then show ?thesis by (simp add: analyze_def)
qed

theorem analyze_passes_reply_through_witness:
  "analyze (Finite 0) True
     (ResponseText (Parsed (Obj [(''food'', Str ''apple''), (''calories'', Num (Finite 95))]))) =
   Sent 200 (Obj [(''analysis'', Obj [(''food'', Str ''apple''), (''calories'', Num (Finite 95))]),
                  (''coach'', Str ''Albert Einstein'')])"
proof -
  let ?a = "Obj [(''food'', Str ''apple''), (''calories'', Num (Finite 95))]"
  have 1: "?a \<noteq> Null" and 2: "?a \<noteq> Undefined" by simp_all
  have 3: "\<not> truthy (own ?a ''fallback'')
         \<or> (\<exists>s. own ?a ''fallback'' = Str s \<and> \<not> str_includes (toLowerCase s) sentinel)"
    by (simp add: get_def)
  from analyze_passes_reply_through[OF 1 2 3, of "Finite 0"] show ?thesis
    by (simp add: getRandomCeleb_zero)
qed

text \<open>
  Claim C3. When the reply of the model does not parse, the handler answers 500 with
  \<^verbatim>\<open>{error: "Invalid response format from AI"}\<close>, whatever the persona drawn.
\<close>

theorem analyze_unparseable_reply:
  "analyze random True (ResponseText SyntaxError) =
     Sent 500 (Obj [(''error'', Str ''Invalid response format from AI'')])"
  by (simp add: analyze_def error_body_def)

theorem analyze_unparseable_reply_witness:
  "analyze (Finite 0) True (ResponseText SyntaxError) =
     Sent 500 (Obj [(''error'', Str ''Invalid response format from AI'')])"
  by (rule analyze_unparseable_reply)

text \<open>
  Claim C10. For every draw \<open>r\<close> of \<^verbatim>\<open>Math.random()\<close>, a binary64 value with \<open>0 \<le> r < 1\<close>,
  \<^verbatim>\<open>Math.floor(r * 10)\<close> is a whole number \<open>i\<close> below the length of the pool, and the persona
  is the pool's element \<open>i\<close>. The product is rounded to binary64, and it stays below \<open>10\<close>
  because the largest draw is \<open>1 - 2\<^sup>-\<^sup>5\<^sup>3\<close>. The persona is a function of the draw alone.
\<close>

theorem getRandomCeleb_in_pool:
  assumes "is_random random"
  shows "\<exists>i < length deadCelebs.
           math_floor (fmul random (Finite 10)) = Finite (of_nat i)
         \<and> getRandomCeleb random = Str (deadCelebs ! i)"
proof -
  from assms obtain q where rq: "random = Finite q" and q: "0 \<le> q" "q < 1" "is_double q"
    by (cases random) auto
  have len: "length deadCelebs = 10" by (simp add: deadCelebs_def)
  have "\<exists>p. round64 (q * 10) = Finite p \<and> 0 \<le> p \<and> p < 10"
  proof (cases "q = 0")
    case True
    then show ?thesis by (simp add: round64_def)
  next
    case False
    with q have "0 < q" by simp
    from double_below_one[OF q(3) this q(2)] have "q * 10 \<le> 10 - 10 / 2 ^ 53" by simp
    moreover have "0 < q * 10" using \<open>0 < q\<close> by simp
    ultimately show ?thesis by (rule round64_below_ten[rotated])
  qed
  then obtain p where p: "round64 (q * 10) = Finite p" "0 \<le> p" "p < 10" by blast
  let ?i = "nat \<lfloor>p\<rfloor>"
  have f0: "0 \<le> \<lfloor>p\<rfloor>" using p by simp
  have f9: "\<lfloor>p\<rfloor> < 10" using p by (simp add: floor_less_iff)
  have i: "?i < length deadCelebs" using f0 f9 unfolding len by linarith
  have fl: "math_floor (fmul random (Finite 10)) = Finite (of_nat ?i)"
    using f0 by (simp add: rq p)
  have "getRandomCeleb random = element deadCelebs (Finite (of_int \<lfloor>p\<rfloor>))"
    by (simp add: getRandomCeleb_def len rq p)
  also have "\<dots> = Str (deadCelebs ! ?i)" using f0 i by simp
  finally show ?thesis using i fl by blast
qed

text \<open>The largest draw selects the last persona of the pool.\<close>

lemma largest_draw: "is_random (Finite (1 - 1 / 2 ^ 53))"
proof -
  have "round64 (1 - 1 / 2 ^ 53) = Finite (1 - 1 / 2 ^ 53)"
    by (rule round64_eval[where k = "- 1"]) (simp_all add: round_half_even_def floor_rat_numeral)
  then show ?thesis by (simp add: is_double_def)
qed

lemma getRandomCeleb_largest_draw: "getRandomCeleb (Finite (1 - 1 / 2 ^ 53)) = Str ''Marie Curie''"
proof -
  have "round64 ((1 - 1 / 2 ^ 53) * 10) = Finite (10 - 1 / 2 ^ 49)"
    by (rule round64_eval[where k = 3]) (simp_all add: round_half_even_def floor_rat_numeral)
  then show ?thesis by (simp add: getRandomCeleb_def deadCelebs_def floor_rat_numeral)
qed

theorem getRandomCeleb_in_pool_witness:
  "is_random (Finite (1 - 1 / 2 ^ 53))
   \<and> (\<exists>i < length deadCelebs.
         math_floor (fmul (Finite (1 - 1 / 2 ^ 53)) (Finite 10)) = Finite (of_nat i)
       \<and> getRandomCeleb (Finite (1 - 1 / 2 ^ 53)) = Str (deadCelebs ! i))"
  using getRandomCeleb_in_pool[OF largest_draw] largest_draw by (rule conjI[rotated])

subsection \<open>POST /save\<close>

text \<open>
  Claim C5, as the specification states it, has the handler refuse a payload without
  \<^verbatim>\<open>userId\<close>. The handler tests \<^verbatim>\<open>cal\<close>, \<^verbatim>\<open>sugar\<close> and \<^verbatim>\<open>carbs\<close> only: the payload
  \<^verbatim>\<open>{cal: 250, sugar: 10, carbs: 30}\<close> reaches \<^verbatim>\<open>insert\<close> with \<^verbatim>\<open>user_id\<close> undefined and, the
  store accepting it, is answered with 200.
\<close>

theorem save_without_userId_counterexample:
  "save accepting
     [(''cal'', Num (Finite 250)), (''sugar'', Num (Finite 10)), (''carbs'', Num (Finite 30))]
     = (Sent 200 (Obj [(''success'', Bool True), (''message'', Str ''saved successfully!''),
                       (''data'', Null)]),
        [Arr [Obj [(''calories'', Num (Finite 250)), (''carbs'', Num (Finite 30)),
                   (''sugar'', Num (Finite 10)), (''user_id'', Undefined),
                   (''food_name'', Undefined)]]])"
  by (simp add: save_def get_def accepting_def)

text \<open>
  Claim C5, amended. The precondition the handler enforces before the insert is that
  \<^verbatim>\<open>cal\<close>, \<^verbatim>\<open>sugar\<close> and \<^verbatim>\<open>carbs\<close> are truthy. With these three truthy it calls \<^verbatim>\<open>insert\<close>
  once, with \<^verbatim>\<open>user_id\<close> set to whatever \<^verbatim>\<open>userId\<close> is, undefined when the payload has none.
\<close>

theorem save_checks_three_fields_only:
  assumes "truthy (get body ''cal'')" and "truthy (get body ''sugar'')"
    and "truthy (get body ''carbs'')"
  shows "snd (save store_insert body) = [Arr [food_row body]]"
  using assms by (simp add: save_def food_row_def Let_def)

theorem save_checks_three_fields_only_witness:
  "snd (save accepting
          [(''cal'', Num (Finite 250)), (''sugar'', Num (Finite 10)), (''carbs'', Num (Finite 30))])
     = [Arr [Obj [(''calories'', Num (Finite 250)), (''carbs'', Num (Finite 30)),
                  (''sugar'', Num (Finite 10)), (''user_id'', Undefined),
                  (''food_name'', Undefined)]]]"
proof -
  let ?b = "[(''cal'', Num (Finite 250)), (''sugar'', Num (Finite 10)),
             (''carbs'', Num (Finite 30))]"
  have 1: "truthy (get ?b ''cal'')" and 2: "truthy (get ?b ''sugar'')"
    and 3: "truthy (get ?b ''carbs'')"
    by (simp_all add: get_def)
  from save_checks_three_fields_only[OF 1 2 3, of accepting] show ?thesis
    by (simp add: food_row_def get_def)
qed

text \<open>
  Claim C6. When \<^verbatim>\<open>cal\<close>, \<^verbatim>\<open>sugar\<close> or \<^verbatim>\<open>carbs\<close> is missing or falsy (the number \<open>0\<close> is
  falsy), the handler answers 400 with \<^verbatim>\<open>{error: 'sugar, carbs, cal is required'}\<close> and calls
  \<^verbatim>\<open>insert\<close> not at all.
\<close>

theorem save_rejects_falsy_field:
  assumes "\<not> truthy (get body ''cal'') \<or> \<not> truthy (get body ''sugar'')
           \<or> \<not> truthy (get body ''carbs'')"
  shows "save store_insert body =
           (Sent 400 (Obj [(''error'', Str ''sugar, carbs, cal is required'')]), [])"
  using assms by (auto simp: save_def error_body_def Let_def)

theorem save_rejects_falsy_field_witness:
  "save accepting
     [(''cal'', Num (Finite 0)), (''sugar'', Num (Finite 10)), (''carbs'', Num (Finite 30)),
      (''userId'', Str ''u1''), (''foodName'', Str ''Water'')]
     = (Sent 400 (Obj [(''error'', Str ''sugar, carbs, cal is required'')]), [])"
proof -
  let ?b = "[(''cal'', Num (Finite 0)), (''sugar'', Num (Finite 10)), (''carbs'', Num (Finite 30)),
             (''userId'', Str ''u1''), (''foodName'', Str ''Water'')]"
  have 1: "\<not> truthy (get ?b ''cal'') \<or> \<not> truthy (get ?b ''sugar'')
           \<or> \<not> truthy (get ?b ''carbs'')"
    by (simp add: get_def)
  from save_rejects_falsy_field[OF 1, of accepting] show ?thesis .
qed

text \<open>
  Claim C7. With \<^verbatim>\<open>cal\<close>, \<^verbatim>\<open>sugar\<close> and \<^verbatim>\<open>carbs\<close> truthy and the store answering the insert
  without an error, the handler answers 200 with
  \<^verbatim>\<open>{success: true, message: 'saved successfully!', data}\<close>, \<^verbatim>\<open>data\<close> being the store's, and the
  one row it inserted has \<^verbatim>\<open>calories = cal\<close>, \<^verbatim>\<open>carbs = carbs\<close>, \<^verbatim>\<open>sugar = sugar\<close>,
  \<^verbatim>\<open>user_id = userId\<close> and \<^verbatim>\<open>food_name = foodName\<close>.
\<close>

theorem save_success:
  assumes "truthy (get body ''cal'')" and "truthy (get body ''sugar'')"
    and "truthy (get body ''carbs'')"
    and "\<not> truthy (error (store_insert (Arr [food_row body])))"
  shows "save store_insert body =
           (Sent 200 (Obj [(''success'', Bool True), (''message'', Str ''saved successfully!''),
                           (''data'', data (store_insert (Arr [food_row body])))]),
            [Arr [Obj [(''calories'', get body ''cal''), (''carbs'', get body ''carbs''),
                       (''sugar'', get body ''sugar''), (''user_id'', get body ''userId''),
                       (''food_name'', get body ''foodName'')]]])"
  using assms by (simp add: save_def food_row_def Let_def)

theorem save_success_witness:
  "save accepting
     [(''cal'', Num (Finite 250)), (''sugar'', Num (Finite 10)), (''carbs'', Num (Finite 30)),
      (''userId'', Str ''u1''), (''foodName'', Str ''Apple'')]
     = (Sent 200 (Obj [(''success'', Bool True), (''message'', Str ''saved successfully!''),
                       (''data'', Null)]),
        [Arr [Obj [(''calories'', Num (Finite 250)), (''carbs'', Num (Finite 30)),
                   (''sugar'', Num (Finite 10)), (''user_id'', Str ''u1''),
                   (''food_name'', Str ''Apple'')]]])"
proof -
  let ?b = "[(''cal'', Num (Finite 250)), (''sugar'', Num (Finite 10)),
             (''carbs'', Num (Finite 30)), (''userId'', Str ''u1''), (''foodName'', Str ''Apple'')]"
  have 1: "truthy (get ?b ''cal'')" and 2: "truthy (get ?b ''sugar'')"
    and 3: "truthy (get ?b ''carbs'')"
    by (simp_all add: get_def)
  have 4: "\<not> truthy (error (accepting (Arr [food_row ?b])))" by (simp add: accepting_def)
  from save_success[where store_insert = accepting, OF 1 2 3 4] show ?thesis
    by (simp add: get_def accepting_def)
qed

subsection \<open>GET /getFoodLogs\<close>

text \<open>
  Claim C4. With a \<^verbatim>\<open>userId\<close> given and the store answering the query with an error, the
  handler returns without sending a response: no 500, no other status.
\<close>

theorem getFoodLogs_store_failure:
  assumes "truthy userId" and "truthy (error r)"
  shows "getFoodLogs userId r = NoResponse"
  using assms by (simp add: getFoodLogs_def)

theorem getFoodLogs_store_failure_witness:
  "getFoodLogs (Str ''u1'') \<lparr>data = [], error = Obj [(''message'', Str ''connection refused'')]\<rparr>
     = NoResponse"
proof -
  have 1: "truthy (Str ''u1'')" by simp
  have 2: "truthy (error \<lparr>data = ([]::FoodLogEntry list),
                          error = Obj [(''message'', Str ''connection refused'')]\<rparr>)"
    by simp
  from getFoodLogs_store_failure[OF 1 2] show ?thesis .
qed

text \<open>
  Claim C8. For rows whose numeric cells are numbers, null or missing (a JSON row holds no
  NaN), each total of \<open>reduce\<close> is the sum of its column over the rows, a missing or null cell
  counting as \<open>0\<close>; and \<open>reduce\<close> of no rows is \<open>{0, 0, 0}\<close>.
\<close>

theorem reduce_sums:
  assumes "\<forall>e \<in> set entries.
             calories e \<noteq> Number NaN \<and> carbs e \<noteq> Number NaN \<and> sugar e \<noteq> Number NaN"
  shows "reduce entries =
           \<lparr>totalCalories = js_sum (map (cell_value \<circ> calories) entries),
            totalCarbs = js_sum (map (cell_value \<circ> carbs) entries),
            totalSugar = js_sum (map (cell_value \<circ> sugar) entries)\<rparr>
         \<and> reduce [] = \<lparr>totalCalories = Finite 0, totalCarbs = Finite 0, totalSugar = Finite 0\<rparr>"
proof -
  have eqs: "map (or_zero \<circ> calories) entries = map (cell_value \<circ> calories) entries"
    "map (or_zero \<circ> carbs) entries = map (cell_value \<circ> carbs) entries"
    "map (or_zero \<circ> sugar) entries = map (cell_value \<circ> sugar) entries"
    using assms by (simp_all add: or_zero_cell_value)
  show ?thesis unfolding reduce_def foldl_accumulate js_sum_def eqs by simp
qed

theorem reduce_sums_witness:
  "reduce [\<lparr>calories = Number (Finite 100), carbs = Number (Finite 10), sugar = Number (Finite 5),
            columns = []\<rparr>,
           \<lparr>calories = Number (Finite 200), carbs = Number (Finite 20), sugar = NullCell,
            columns = []\<rparr>]
     = \<lparr>totalCalories = Finite 300, totalCarbs = Finite 30, totalSugar = Finite 5\<rparr>"
proof -
  let ?es = "[\<lparr>calories = Number (Finite 100), carbs = Number (Finite 10), sugar = Number (Finite 5),
            columns = []\<rparr>,
           \<lparr>calories = Number (Finite 200), carbs = Number (Finite 20), sugar = NullCell,
            columns = []\<rparr>]"
  have h: "\<forall>e \<in> set ?es.
             calories e \<noteq> Number NaN \<and> carbs e \<noteq> Number NaN \<and> sugar e \<noteq> Number NaN"
    by simp
  from reduce_sums[OF h] show ?thesis by (simp add: js_sum_def round64_numeral)
qed

text \<open>
  Claim C9, as the specification states it, makes \<open>reduce\<close> independent of the order of any
  numerically valid rows. The totals are binary64 sums taken in the order of the rows, and
  binary64 addition is not associative: rows with the sugar values \<^verbatim>\<open>0.1\<close>, \<^verbatim>\<open>0.2\<close>, \<^verbatim>\<open>0.3\<close>
  total \<^verbatim>\<open>0.6000000000000001\<close> (which is \<open>1351079888211149 / 2\<^sup>5\<^sup>1\<close>) in this order and
  \<^verbatim>\<open>0.6\<close> (which is \<open>5404319552844595 / 2\<^sup>5\<^sup>3\<close>) in the reverse order.
\<close>

theorem reduce_order_counterexample:
  "mset [log_row 300 30 (3 / 10), log_row 200 20 (2 / 10), log_row 100 10 (1 / 10)]
     = mset [log_row 100 10 (1 / 10), log_row 200 20 (2 / 10), log_row 300 30 (3 / 10)]
   \<and> totalSugar (reduce [log_row 100 10 (1 / 10), log_row 200 20 (2 / 10), log_row 300 30 (3 / 10)])
       = Finite (1351079888211149 / 2251799813685248)
   \<and> totalSugar (reduce [log_row 300 30 (3 / 10), log_row 200 20 (2 / 10), log_row 100 10 (1 / 10)])
       = Finite (5404319552844595 / 9007199254740992)
   \<and> reduce [log_row 300 30 (3 / 10), log_row 200 20 (2 / 10), log_row 100 10 (1 / 10)]
       \<noteq> reduce [log_row 100 10 (1 / 10), log_row 200 20 (2 / 10), log_row 300 30 (3 / 10)]"
proof -
  have t: "truthy (Num (round64 (1 / 10)))" "truthy (Num (round64 (2 / 10)))"
    "truthy (Num (round64 (3 / 10)))"
    by (simp_all only: round64_tenth round64_fifth round64_three_tenths) simp_all
  have a: "totalSugar (reduce [log_row 100 10 (1 / 10), log_row 200 20 (2 / 10), log_row 300 30 (3 / 10)])
             = Finite (1351079888211149 / 2251799813685248)"
    unfolding reduce_def foldl_accumulate
    by (simp only: DailyTotals.simps list.map comp_def log_row_def FoodLogEntry.simps or_zero.simps t
          if_True foldl.simps sum_ascending)
  have d: "totalSugar (reduce [log_row 300 30 (3 / 10), log_row 200 20 (2 / 10), log_row 100 10 (1 / 10)])
             = Finite (5404319552844595 / 9007199254740992)"
    unfolding reduce_def foldl_accumulate
    by (simp only: DailyTotals.simps list.map comp_def log_row_def FoodLogEntry.simps or_zero.simps t
          if_True foldl.simps sum_descending)
  have "Finite (5404319552844595 / 9007199254740992) \<noteq> Finite (1351079888211149 / 2251799813685248)"
    by simp
  then have n: "reduce [log_row 300 30 (3 / 10), log_row 200 20 (2 / 10), log_row 100 10 (1 / 10)]
       \<noteq> reduce [log_row 100 10 (1 / 10), log_row 200 20 (2 / 10), log_row 300 30 (3 / 10)]"
    using a d by metis
  have m: "mset [log_row 300 30 (3 / 10), log_row 200 20 (2 / 10), log_row 100 10 (1 / 10)]
     = mset [log_row 100 10 (1 / 10), log_row 200 20 (2 / 10), log_row 300 30 (3 / 10)]"
    by (simp add: add_mset_commute)
  from m a d n show ?thesis by (intro conjI)
qed

text \<open>
  Claim C9, amended. For rows whose calories, carbs and sugar are whole numbers, not
  negative, each column adding up to at most \<open>2\<^sup>5\<^sup>3\<close> (the range in which binary64 addition
  of whole numbers is exact), \<open>reduce\<close> of a permutation of the rows equals \<open>reduce\<close> of the
  rows.
\<close>

theorem reduce_permutation_whole:
  assumes "mset shuffled = mset entries"
    and "\<forall>e \<in> set entries. whole (calories e) \<and> whole (carbs e) \<and> whole (sugar e)"
    and "(\<Sum>e\<leftarrow>entries. amount (calories e)) \<le> 2 ^ 53"
    and "(\<Sum>e\<leftarrow>entries. amount (carbs e)) \<le> 2 ^ 53"
    and "(\<Sum>e\<leftarrow>entries. amount (sugar e)) \<le> 2 ^ 53"
  shows "reduce shuffled = reduce entries"
proof -
  have same: "set shuffled = set entries" using assms(1) by (rule mset_eq_setD)
  have sums: "\<And>f. (\<Sum>e\<leftarrow>shuffled. amount (f e)) = (\<Sum>e\<leftarrow>entries. amount (f e))"
    using assms(1) by (rule sum_list_perm)
  have E: "\<And>f. \<forall>e \<in> set entries. whole (f e) \<Longrightarrow> (\<Sum>e\<leftarrow>entries. amount (f e)) \<le> 2 ^ 53 \<Longrightarrow>
            foldl fadd (Finite 0) (map (or_zero \<circ> f) shuffled)
              = foldl fadd (Finite 0) (map (or_zero \<circ> f) entries)"
  proof -
    fix f :: "FoodLogEntry \<Rightarrow> cell"
    assume w: "\<forall>e \<in> set entries. whole (f e)" and s: "(\<Sum>e\<leftarrow>entries. amount (f e)) \<le> 2 ^ 53"
    have "foldl fadd (Finite 0) (map (or_zero \<circ> f) shuffled) = Finite (\<Sum>e\<leftarrow>shuffled. amount (f e))"
      using w s by (intro column_exact) (simp_all only: same sums)
    also have "\<dots> = Finite (\<Sum>e\<leftarrow>entries. amount (f e))" by (simp only: sums)
    also have "\<dots> = foldl fadd (Finite 0) (map (or_zero \<circ> f) entries)"
      using w s by (rule column_exact[symmetric])
    finally show "foldl fadd (Finite 0) (map (or_zero \<circ> f) shuffled)
              = foldl fadd (Finite 0) (map (or_zero \<circ> f) entries)" .
  qed
  show ?thesis
    using assms(2-5) by (simp add: reduce_def foldl_accumulate E)
qed

theorem reduce_permutation_whole_witness:
  "reduce [\<lparr>calories = Number (Finite 200), carbs = Number (Finite 20), sugar = Number (Finite 0),
            columns = []\<rparr>,
           \<lparr>calories = Number (Finite 100), carbs = Number (Finite 10), sugar = Number (Finite 5),
            columns = []\<rparr>]
     = reduce [\<lparr>calories = Number (Finite 100), carbs = Number (Finite 10), sugar = Number (Finite 5),
            columns = []\<rparr>,
           \<lparr>calories = Number (Finite 200), carbs = Number (Finite 20), sugar = Number (Finite 0),
            columns = []\<rparr>]"
proof -
  let ?a = "\<lparr>calories = Number (Finite 100), carbs = Number (Finite 10), sugar = Number (Finite 5),
            columns = []\<rparr>"
  let ?b = "\<lparr>calories = Number (Finite 200), carbs = Number (Finite 20), sugar = Number (Finite 0),
            columns = []\<rparr>"
  have 1: "mset [?b, ?a] = mset [?a, ?b]" by (simp add: add_mset_commute)
  have 2: "\<forall>e \<in> set [?a, ?b]. whole (calories e) \<and> whole (carbs e) \<and> whole (sugar e)" by simp
  have 3: "(\<Sum>e\<leftarrow>[?a, ?b]. amount (calories e)) \<le> 2 ^ 53" by simp
  have 4: "(\<Sum>e\<leftarrow>[?a, ?b]. amount (carbs e)) \<le> 2 ^ 53" by simp
  have 5: "(\<Sum>e\<leftarrow>[?a, ?b]. amount (sugar e)) \<le> 2 ^ 53" by simp
  from reduce_permutation_whole[OF 1 2 3 4 5] show ?thesis .
qed

end
